theory Spec2Isabelle
  imports Complex_Main
begin

section \<open>Data model\<close>

text \<open>
  A Python \<open>str\<close> is a sequence of Unicode code points; a character is modelled by its
  code point, so \<open>len\<close> is \<open>length\<close> and indexing is \<open>!\<close>.
\<close>

type_synonym uchar = nat
type_synonym ustr = "uchar list"

text \<open>
  \<open>ArabicSpellChecker\<close> has the single attribute \<open>word_list\<close>, a Python \<open>set\<close> of
  strings. The loop of \<open>get_suggestions\<close> iterates over it, so it is kept in its iteration
  order: a list, without duplicates for a set.
\<close>

record ArabicSpellChecker =
  word_list :: "ustr list"

section \<open>Normalizer\<close>

text \<open>\<open>re.sub\<close> deleting every character of the range U+064B..U+065F.\<close>

definition remove_diacritics :: "ustr \<Rightarrow> ustr" where
  "remove_diacritics text = filter (\<lambda>c. \<not> (0x64B \<le> c \<and> c \<le> 0x65F)) text"

text \<open>\<open>str.replace\<close> with a one-character pattern and a one-character replacement.\<close>

definition replace :: "uchar \<Rightarrow> uchar \<Rightarrow> ustr \<Rightarrow> ustr" where
  "replace old new text = map (\<lambda>c. if c = old then new else c) text"

definition normalize_text :: "ustr \<Rightarrow> ustr" where
  "normalize_text text0 =
     (let text1 = replace 0x649 0x64A text0;
          text2 = replace 0x629 0x647 text1;
          text3 = replace 0x623 0x627 text2;
          text4 = replace 0x625 0x627 text3;
          text5 = replace 0x622 0x627 text4
      in text5)"

text \<open>The preprocessing of \<open>check_text\<close>: diacritic removal, then variant substitution.\<close>

definition preprocess_text :: "ustr \<Rightarrow> ustr" where
  "preprocess_text text = normalize_text (remove_diacritics text)"

section \<open>Phonetic model\<close>

definition get_character_groups :: "uchar list list" where
  "get_character_groups =
     [[0x627, 0x623, 0x625, 0x622],
      [0x64A, 0x649],
      [0x647, 0x629],
      [0x648, 0x624],
      [0x643, 0x6AF],
      [0x62A, 0x637],
      [0x633, 0x635],
      [0x62F, 0x636],
      [0x62D, 0x647, 0x62E],
      [0x632, 0x630, 0x638]]"

text \<open>The loop over \<open>char_groups\<close>, returning at the first group holding both.\<close>

fun group_scan :: "uchar list list \<Rightarrow> uchar \<Rightarrow> uchar \<Rightarrow> rat" where
  "group_scan [] char1 char2 = 1"
| "group_scan (grp # groups) char1 char2 =
     (if char1 \<in> set grp \<and> char2 \<in> set grp then 1 / 2
      else group_scan groups char1 char2)"

definition calculate_phonetic_distance :: "uchar \<Rightarrow> uchar \<Rightarrow> rat" where
  "calculate_phonetic_distance char1 char2 =
     (if char1 = char2 then 0 else group_scan get_character_groups char1 char2)"

section \<open>Matcher and ranker\<close>

text \<open>
  Modelled from the spec: \<open>Levenshtein.distance\<close> is a function of the imported library
  \<open>Levenshtein\<close>, whose code is not part of the repository. The spec names it the classic
  Levenshtein distance, in which an insertion, a deletion and a substitution cost 1 each.
\<close>

fun levenshtein :: "ustr \<Rightarrow> ustr \<Rightarrow> nat" where
  "levenshtein [] ys = length ys"
| "levenshtein (x # xs) [] = Suc (length xs)"
| "levenshtein (x # xs) (y # ys) =
     min (min (levenshtein xs (y # ys) + 1) (levenshtein (x # xs) ys + 1))
         (levenshtein xs ys + (if x = y then 0 else 1))"

text \<open>
  The loop \<open>for i in range(min_len)\<close> of \<open>custom_distance\<close>; \<open>i\<close> stays below both
  lengths, so every index is in range.
\<close>

function phonetic_loop :: "ustr \<Rightarrow> ustr \<Rightarrow> nat \<Rightarrow> nat \<Rightarrow> rat \<Rightarrow> rat" where
  "phonetic_loop word1 word2 i min_len phonetic_adjustment =
     (if i < min_len then
        phonetic_loop word1 word2 (i + 1) min_len
          (if word1 ! i \<noteq> word2 ! i
           then phonetic_adjustment + (calculate_phonetic_distance (word1 ! i) (word2 ! i) - 1)
           else phonetic_adjustment)
      else phonetic_adjustment)"
  by pat_completeness auto

termination phonetic_loop
  by (relation "measure (\<lambda>(w1, w2, i, n, acc). n - i)") auto

definition custom_distance :: "ustr \<Rightarrow> ustr \<Rightarrow> rat" where
  "custom_distance word1 word2 =
     (let base_distance = levenshtein word1 word2;
          min_len = min (length word1) (length word2);
          phonetic_adjustment = phonetic_loop word1 word2 0 min_len 0;
          adjusted_distance = max 0 (of_nat base_distance + phonetic_adjustment)
      in adjusted_distance)"

text \<open>The prefix loop \<open>for i in range(min(word_len, dict_word_len))\<close>, with its \<open>break\<close>.\<close>

function prefix_loop :: "ustr \<Rightarrow> ustr \<Rightarrow> nat \<Rightarrow> nat \<Rightarrow> nat \<Rightarrow> nat" where
  "prefix_loop word dict_word i n prefix_length =
     (if i < n then
        (if word ! i = dict_word ! i
         then prefix_loop word dict_word (i + 1) n (prefix_length + 1)
         else prefix_length)
      else prefix_length)"
  by pat_completeness auto

termination prefix_loop
  by (relation "measure (\<lambda>(w1, w2, i, n, acc). n - i)") auto

text \<open>
  The suffix loop \<open>for i in range(1, min(word_len, dict_word_len) + 1)\<close>; \<open>word[-i]\<close> with
  \<open>1 \<le> i \<le> len(word)\<close> is the character at index \<open>len(word) - i\<close>.
\<close>

function suffix_loop :: "ustr \<Rightarrow> ustr \<Rightarrow> nat \<Rightarrow> nat \<Rightarrow> nat \<Rightarrow> nat" where
  "suffix_loop word dict_word i n suffix_length =
     (if i < n then
        (if length word \<ge> i \<and> length dict_word \<ge> i \<and>
            word ! (length word - i) = dict_word ! (length dict_word - i)
         then suffix_loop word dict_word (i + 1) n (suffix_length + 1)
         else suffix_length)
      else suffix_length)"
  by pat_completeness auto

termination suffix_loop
  by (relation "measure (\<lambda>(w1, w2, i, n, acc). n - i)") auto

text \<open>The length gate of \<open>get_suggestions\<close>: true when the candidate is skipped.\<close>

definition length_gate :: "ustr \<Rightarrow> ustr \<Rightarrow> bool" where
  "length_gate word dict_word =
     (let word_len = int (length word); dict_word_len = int (length dict_word)
      in abs (word_len - dict_word_len) > min 3 (word_len div 2 + 1))"

text \<open>
  The body of the candidate loop after the gate. Python's \<open>/\<close> on integers is true
  division. The score is given by its exact rational value: the rounding of each
  operation to a double is not part of the model, so the model fixes the order of two
  candidates whose exact scores differ by more than the rounding error, and does not fix
  the order of candidates whose exact scores are equal or a rounding error apart.
\<close>

definition weighted_score :: "ustr \<Rightarrow> ustr \<Rightarrow> rat" where
  "weighted_score word dict_word =
     (let word_len = length word;
          dict_word_len = length dict_word;
          adjusted_distance = custom_distance word dict_word;
          max_len = max word_len dict_word_len;
          normalized_distance =
            (if max_len > 0 then adjusted_distance / of_nat max_len else adjusted_distance);
          prefix_length = prefix_loop word dict_word 0 (min word_len dict_word_len) 0;
          suffix_length = suffix_loop word dict_word 1 (min word_len dict_word_len + 1) 0;
          prefix_bonus =
            (if prefix_length > 1 then of_nat prefix_length / of_nat (max word_len 1) else 0);
          suffix_bonus =
            (if suffix_length > 1 then of_nat suffix_length / of_nat (max word_len 1) else 0);
          length_ratio =
            (if max_len > 0
             then of_nat (min word_len dict_word_len) / of_nat (max word_len dict_word_len)
             else 0);
          score = normalized_distance - prefix_bonus * (4 / 10) - suffix_bonus * (2 / 10)
                    - length_ratio * (2 / 10)
      in if prefix_length \<ge> 3 \<and> suffix_length \<ge> 1 then score - 3 / 10 else score)"

text \<open>The loop \<open>for dict_word in self.word_list\<close>, appending to \<open>suggestions\<close>.\<close>

fun suggestions_loop :: "ustr \<Rightarrow> ustr list \<Rightarrow> (ustr \<times> rat) list \<Rightarrow> (ustr \<times> rat) list" where
  "suggestions_loop word [] suggestions = suggestions"
| "suggestions_loop word (dict_word # rest) suggestions =
     (if length_gate word dict_word then suggestions_loop word rest suggestions
      else suggestions_loop word rest (suggestions @ [(dict_word, weighted_score word dict_word)]))"

text \<open>
  The slice \<open>xs[:k]\<close>: the first \<open>k\<close> elements, and for a negative \<open>k\<close> all but the
  last \<open>-k\<close>.
\<close>

definition slice_to :: "'a list \<Rightarrow> int \<Rightarrow> 'a list" where
  "slice_to xs k = (if k < 0 then take (nat (int (length xs) + k)) xs else take (nat k) xs)"

text \<open>\<open>list.sort(key=...)\<close> is stable, as \<open>sort_key\<close> is.\<close>

definition get_suggestions :: "ArabicSpellChecker \<Rightarrow> ustr \<Rightarrow> int \<Rightarrow> ustr list" where
  "get_suggestions self word max_suggestions =
     (let suggestions = suggestions_loop word (word_list self) [];
          sorted_suggestions = sort_key snd suggestions
      in map fst (slice_to sorted_suggestions max_suggestions))"

section \<open>Checker\<close>

text \<open>The characters for which \<open>str.isspace\<close> holds; \<open>str.split()\<close> splits at their runs.\<close>

definition isspace :: "uchar \<Rightarrow> bool" where
  "isspace c =
     ((0x09 \<le> c \<and> c \<le> 0x0D) \<or> (0x1C \<le> c \<and> c \<le> 0x20) \<or> c = 0x85 \<or> c = 0xA0 \<or>
      c = 0x1680 \<or> (0x2000 \<le> c \<and> c \<le> 0x200A) \<or> c = 0x2028 \<or> c = 0x2029 \<or>
      c = 0x202F \<or> c = 0x205F \<or> c = 0x3000)"

text \<open>\<open>text.split()\<close>: the maximal runs of non-space characters; \<open>cur\<close> is the run being read.\<close>

fun split_from :: "ustr \<Rightarrow> ustr \<Rightarrow> ustr list" where
  "split_from cur [] = (if cur = [] then [] else [cur])"
| "split_from cur (c # cs) =
     (if isspace c then (if cur = [] then split_from [] cs else cur # split_from [] cs)
      else split_from (cur @ [c]) cs)"

definition split :: "ustr \<Rightarrow> ustr list" where
  "split text = split_from [] text"

definition in_script :: "uchar \<Rightarrow> bool" where
  "in_script c = (0x600 \<le> c \<and> c \<le> 0x6FF)"

text \<open>\<open>re.search\<close> for one character of U+0600..U+06FF, and \<open>re.sub\<close> deleting the others.\<close>

definition has_script :: "ustr \<Rightarrow> bool" where
  "has_script word = list_ex in_script word"

definition strip_non_script :: "ustr \<Rightarrow> ustr" where
  "strip_non_script word = filter in_script word"

text \<open>The loop \<open>for word in words\<close>; \<open>misspelled\<close> is the dictionary being filled.\<close>

fun check_loop ::
  "ArabicSpellChecker \<Rightarrow> ustr list \<Rightarrow> (ustr \<rightharpoonup> ustr list) \<Rightarrow> (ustr \<rightharpoonup> ustr list)" where
  "check_loop self [] misspelled = misspelled"
| "check_loop self (word # words) misspelled =
     (if word = [] \<or> \<not> has_script word then check_loop self words misspelled
      else
        (let clean_word = strip_non_script word
         in if clean_word \<noteq> [] \<and> clean_word \<notin> set (word_list self)
            then check_loop self words (misspelled(word \<mapsto> get_suggestions self clean_word 3))
            else check_loop self words misspelled))"

definition check_text :: "ArabicSpellChecker \<Rightarrow> ustr \<Rightarrow> (ustr \<rightharpoonup> ustr list)" where
  "check_text self text0 =
     (let text1 = remove_diacritics text0;
          text2 = normalize_text text1;
          words = split text2
      in check_loop self words Map.empty)"

text \<open>
  \<open>ArabicSpellChecker.__init__\<close>, from the lines that \<open>load_word_list\<close> read: every word
  goes through \<open>normalize_text\<close> and the results are collected in a set.
\<close>

definition init :: "ustr list \<Rightarrow> ArabicSpellChecker" where
  "init loaded = \<lparr>word_list = remdups (map normalize_text loaded)\<rparr>"

section \<open>Concrete words\<close>

text \<open>
  The words of the concrete scenario and of the evaluated examples: \<open>word_maktaba\<close> ends
  in U+0629 and \<open>word_maktabh\<close> is its normalized form, \<open>word_kataba\<close> carries the diacritic U+064E, and \<open>token_kitax\<close> is
  \<open>word_kitab\<close> with its last letter replaced by U+063E.
\<close>

definition word_kitab :: ustr where
  "word_kitab = [0x643, 0x62A, 0x627, 0x628]"

definition word_ktb :: ustr where
  "word_ktb = [0x643, 0x62A, 0x628]"

definition word_maktaba :: ustr where
  "word_maktaba = [0x645, 0x643, 0x62A, 0x628, 0x629]"

definition word_maktabh :: ustr where
  "word_maktabh = [0x645, 0x643, 0x62A, 0x628, 0x647]"

definition word_almaktabat :: ustr where
  "word_almaktabat = [0x627, 0x644, 0x645, 0x643, 0x62A, 0x628, 0x627, 0x62A]"

definition word_kataba :: ustr where
  "word_kataba = [0x643, 0x64E, 0x62A, 0x628]"

definition token_kitax :: ustr where
  "token_kitax = [0x643, 0x62A, 0x627, 0x63E]"

definition token_kb :: ustr where
  "token_kb = [0x643, 0x628]"

definition example_checker :: ArabicSpellChecker where
  "example_checker = \<lparr>word_list = [word_almaktabat, word_kitab, word_ktb]\<rparr>"

declare phonetic_loop.simps [simp del] prefix_loop.simps [simp del] suffix_loop.simps [simp del]

section \<open>Properties of the normalizer\<close>

lemma replace_id: "old \<notin> set s \<Longrightarrow> replace old new s = s"
  by (induction s) (simp_all add: replace_def)

lemma remove_diacritics_id:
  "\<forall>c \<in> set s. \<not> (0x64B \<le> c \<and> c \<le> 0x65F) \<Longrightarrow> remove_diacritics s = s"
  by (induction s) (simp_all add: remove_diacritics_def)

lemma set_replace: "set (replace old new s) \<subseteq> (set s - {old}) \<union> {new}"
  by (auto simp add: replace_def)

lemma set_normalize_text:
  "set (normalize_text s) \<subseteq> (set s - {0x649, 0x629, 0x623, 0x625, 0x622}) \<union> {0x64A, 0x647, 0x627}"
  unfolding normalize_text_def Let_def replace_def by auto

lemma set_remove_diacritics:
  "set (remove_diacritics s) = {c \<in> set s. \<not> (0x64B \<le> c \<and> c \<le> 0x65F)}"
  by (simp add: remove_diacritics_def)

lemma normalize_text_id:
  assumes "set s \<inter> {0x649, 0x629, 0x623, 0x625, 0x622} = {}"
  shows "normalize_text s = s"
proof -
  have "0x649 \<notin> set s" "0x629 \<notin> set s" "0x623 \<notin> set s"
       "0x625 \<notin> set s" "0x622 \<notin> set s"
    using assms by auto
  then show ?thesis
    by (simp add: normalize_text_def replace_id)
qed

lemma normalize_no_variant:
  "set (preprocess_text s) \<inter> {0x649, 0x629, 0x623, 0x625, 0x622} = {}"
  using set_normalize_text [of "remove_diacritics s"] unfolding preprocess_text_def by auto

lemma normalize_no_diacritic:
  "\<forall>c \<in> set (preprocess_text s). \<not> (0x64B \<le> c \<and> c \<le> 0x65F)"
proof
  fix c assume c: "c \<in> set (preprocess_text s)"
  then have "c \<in> set (remove_diacritics s) \<or> c \<in> {0x64A, 0x647, 0x627}"
    using set_normalize_text [of "remove_diacritics s"] unfolding preprocess_text_def by auto
  then show "\<not> (0x64B \<le> c \<and> c \<le> 0x65F)"
    by (auto simp add: set_remove_diacritics)
qed

text \<open>
  C7. Normalization idempotence: for every text, the full normalization (diacritic removal
  followed by the five variant substitutions) applied twice gives the same result as
  applied once.
\<close>

theorem normalize_idempotent: "preprocess_text (preprocess_text s) = preprocess_text s"
proof -
  have "remove_diacritics (preprocess_text s) = preprocess_text s"
    by (rule remove_diacritics_id) (rule normalize_no_diacritic)
  moreover have "normalize_text (preprocess_text s) = preprocess_text s"
    by (rule normalize_text_id) (rule normalize_no_variant)
  ultimately show ?thesis
    by (simp add: preprocess_text_def)
qed

section \<open>Properties of the phonetic model\<close>

lemma group_scan_cases:
  "group_scan groups a b = (if \<exists>g \<in> set groups. a \<in> set g \<and> b \<in> set g then 1 / 2 else 1)"
  by (induction groups) auto

text \<open>
  C4. For every pair of characters the phonetic distance is one of 0, 0.5 and 1: it is 0
  when the characters are equal, 0.5 when they differ and occur together in at least one
  class of the fixed class list (however many classes hold both), and 1 otherwise, also when
  one of them is in no class.
\<close>

theorem phonetic_distance_cases:
  "calculate_phonetic_distance a b \<in> {0, 1 / 2, 1} \<and>
   calculate_phonetic_distance a b =
     (if a = b then 0
      else if \<exists>g \<in> set get_character_groups. a \<in> set g \<and> b \<in> set g then 1 / 2
      else 1)"
  by (simp add: calculate_phonetic_distance_def group_scan_cases)

section \<open>Properties of the ranker\<close>

lemma suggestions_loop_eq:
  "suggestions_loop word ds acc =
     acc @ map (\<lambda>d. (d, weighted_score word d)) (filter (\<lambda>d. \<not> length_gate word d) ds)"
  by (induction ds arbitrary: acc) simp_all

lemma set_slice_to: "set (slice_to xs k) \<subseteq> set xs"
  by (simp add: slice_to_def set_take_subset)

lemma length_slice_to: "length (slice_to xs k) \<le> length xs"
  by (simp add: slice_to_def) arith

lemma length_slice_to_bound: "0 \<le> k \<Longrightarrow> int (length (slice_to xs k)) \<le> k"
  by (simp add: slice_to_def)

lemma distinct_slice_to: "distinct (map f xs) \<Longrightarrow> distinct (map f (slice_to xs k))"
  by (simp add: slice_to_def take_map [symmetric])

lemma set_get_suggestions:
  "set (get_suggestions self word k) \<subseteq> {d \<in> set (word_list self). \<not> length_gate word d}"
proof -
  have "set (get_suggestions self word k)
          \<subseteq> fst ` set (sort_key snd (suggestions_loop word (word_list self) []))"
    unfolding get_suggestions_def Let_def using set_slice_to by fastforce
  also have "\<dots> \<subseteq> {d \<in> set (word_list self). \<not> length_gate word d}"
    by (auto simp add: suggestions_loop_eq)
  finally show ?thesis .
qed

lemma length_get_suggestions:
  "length (get_suggestions self word k) \<le> length (word_list self)"
proof -
  have "length (get_suggestions self word k)
          \<le> length (suggestions_loop word (word_list self) [])"
    unfolding get_suggestions_def Let_def
    using length_slice_to [of "sort_key snd (suggestions_loop word (word_list self) [])" k]
    by simp
  also have "\<dots> \<le> length (word_list self)"
    by (simp add: suggestions_loop_eq)
  finally show ?thesis .
qed

lemma distinct_get_suggestions:
  assumes "distinct (word_list self)"
  shows "distinct (get_suggestions self word k)"
proof -
  let ?c = "suggestions_loop word (word_list self) []"
  have "map fst ?c = filter (\<lambda>d. \<not> length_gate word d) (word_list self)"
    by (simp add: suggestions_loop_eq comp_def)
  then have "distinct (map fst ?c)"
    using assms by simp
  then have "distinct ?c" and "inj_on fst (set ?c)"
    by (simp_all add: distinct_map)
  then have "distinct (map fst (sort_key snd ?c))"
    by (simp add: distinct_map)
  then show ?thesis
    unfolding get_suggestions_def Let_def by (rule distinct_slice_to)
qed

lemma get_suggestions_all_gated:
  assumes "\<forall>d \<in> set (word_list self). length_gate word d"
  shows "get_suggestions self word k = []"
proof -
  have "set (get_suggestions self word k) \<subseteq> {}"
    using set_get_suggestions [of self word k] assms by blast
  then show ?thesis
    by simp
qed

text \<open>
  C5. Length-gate correctness: no word whose length differs from the query's by more than
  \<open>min(3, len(word) // 2 + 1)\<close> is in the list that \<open>get_suggestions\<close> returns,
  for every query word, vocabulary and \<open>max_suggestions\<close>.
\<close>

theorem length_gate_correct:
  "d \<in> set (get_suggestions self word k) \<Longrightarrow>
   \<not> \<bar>int (length word) - int (length d)\<bar> > min 3 (int (length word) div 2 + 1)"
  using set_get_suggestions [of self word k] by (auto simp add: length_gate_def)

theorem length_gate_correct_witness:
  "word_kitab \<in> set (get_suggestions example_checker token_kb 3) \<and>
   \<not> \<bar>int (length token_kb) - int (length word_kitab)\<bar> > min 3 (int (length token_kb) div 2 + 1)"
proof -
  have h: "word_kitab \<in> set (get_suggestions example_checker token_kb 3)"
    by code_simp
  show ?thesis
    using h length_gate_correct [OF h] by (rule conjI)
qed

text \<open>
  C10. Every word that \<open>get_suggestions\<close> returns is a word of the vocabulary, and
  no word is returned twice; the vocabulary, a set, lists no word twice.
\<close>

theorem suggestions_from_vocabulary:
  "distinct (word_list self) \<Longrightarrow>
   set (get_suggestions self word k) \<subseteq> set (word_list self) \<and>
   distinct (get_suggestions self word k)"
  using set_get_suggestions [of self word k] distinct_get_suggestions [of self word k] by auto

theorem suggestions_from_vocabulary_witness:
  "distinct (word_list example_checker) \<and>
   set (get_suggestions example_checker token_kb 3) \<subseteq> set (word_list example_checker) \<and>
   distinct (get_suggestions example_checker token_kb 3)"
proof -
  have h: "distinct (word_list example_checker)"
    by code_simp
  show ?thesis
    using h suggestions_from_vocabulary [OF h] by (rule conjI)
qed

text \<open>
  C6. Bounded output: for every query word, every vocabulary and every count \<open>k\<close> of
  suggestions asked for, the list that \<open>get_suggestions\<close> returns has at most \<open>k\<close>
  words and at most as many as the vocabulary; an empty vocabulary, and one whose words
  are all stopped by the length gate, give the empty list.
\<close>

theorem bounded_output:
  "length (get_suggestions self word (int k)) \<le> k \<and>
   length (get_suggestions self word (int k)) \<le> length (word_list self) \<and>
   (word_list self = [] \<longrightarrow> get_suggestions self word (int k) = []) \<and>
   ((\<forall>d \<in> set (word_list self).
       \<bar>int (length word) - int (length d)\<bar> > min 3 (int (length word) div 2 + 1)) \<longrightarrow>
    get_suggestions self word (int k) = [])"
proof -
  have "int (length (get_suggestions self word (int k))) \<le> int k"
    unfolding get_suggestions_def Let_def length_map by (rule length_slice_to_bound) simp
  then have "length (get_suggestions self word (int k)) \<le> k"
    by simp
  moreover have "word_list self = [] \<longrightarrow> get_suggestions self word (int k) = []"
    using length_get_suggestions [of self word "int k"] by auto
  moreover have "(\<forall>d \<in> set (word_list self).
       \<bar>int (length word) - int (length d)\<bar> > min 3 (int (length word) div 2 + 1)) \<longrightarrow>
    get_suggestions self word (int k) = []"
    using get_suggestions_all_gated [of self word "int k"] by (simp add: length_gate_def)
  ultimately show ?thesis
    using length_get_suggestions [of self word "int k"] by blast
qed

theorem bounded_output_witness:
  "length (get_suggestions example_checker token_kb (int 1)) \<le> 1 \<and>
   get_suggestions example_checker token_kb (int 1) = [word_ktb] \<and>
   length (get_suggestions example_checker token_kb (int 3)) \<le> length (word_list example_checker) \<and>
   word_list \<lparr>word_list = []\<rparr> = [] \<and>
   get_suggestions \<lparr>word_list = []\<rparr> token_kb (int 3) = [] \<and>
   length_gate token_kb word_almaktabat \<and>
   get_suggestions \<lparr>word_list = [word_almaktabat]\<rparr> token_kb (int 3) = []"
proof -
  have a: "length (get_suggestions example_checker token_kb (int 1)) \<le> 1"
    using bounded_output [of example_checker token_kb 1] by simp
  have v: "get_suggestions example_checker token_kb (int 1) = [word_ktb]"
    by code_simp
  have l: "length (get_suggestions example_checker token_kb (int 3))
             \<le> length (word_list example_checker)"
    using bounded_output [of example_checker token_kb 3] by simp
  have b: "get_suggestions \<lparr>word_list = []\<rparr> token_kb (int 3) = []"
    using bounded_output [of "\<lparr>word_list = []\<rparr>" token_kb 3] by simp
  have g: "length_gate token_kb word_almaktabat"
    by code_simp
  have c: "get_suggestions \<lparr>word_list = [word_almaktabat]\<rparr> token_kb (int 3) = []"
    using g bounded_output [of "\<lparr>word_list = [word_almaktabat]\<rparr>" token_kb 3]
    by (simp add: length_gate_def Let_def)
  show ?thesis
    using a v l b g c by simp
qed

section \<open>Properties of the checker\<close>

lemma check_loop_key:
  "check_loop self ws m t = Some s \<Longrightarrow>
   m t = Some s \<or> (t \<in> set ws \<and> has_script t \<and> strip_non_script t \<notin> set (word_list self))"
proof (induction ws arbitrary: m)
  case Nil
  then show ?case by simp
next
  case (Cons w ws)
  let ?m' = "m(w \<mapsto> get_suggestions self (strip_non_script w) 3)"
  show ?case
  proof (cases "w \<noteq> [] \<and> has_script w \<and> strip_non_script w \<noteq> [] \<and>
                strip_non_script w \<notin> set (word_list self)")
    case True
    then have "check_loop self (w # ws) m = check_loop self ws ?m'"
      by (simp add: Let_def)
    with Cons.prems have "check_loop self ws ?m' t = Some s"
      by (simp only:)
    from Cons.IH [OF this] show ?thesis
      using True by (cases "t = w") auto
  next
    case False
    then have "check_loop self (w # ws) m = check_loop self ws m"
      by (auto simp add: Let_def)
    with Cons.prems have "check_loop self ws m t = Some s"
      by (simp only:)
    from Cons.IH [OF this] show ?thesis
      by auto
  qed
qed

lemma check_text_key:
  assumes "check_text self text0 t = Some s"
  shows "t \<in> set (split (preprocess_text text0)) \<and> has_script t \<and>
         strip_non_script t \<notin> set (word_list self)"
  using check_loop_key [of self "split (preprocess_text text0)" Map.empty t s] assms
  by (simp add: check_text_def preprocess_text_def Let_def)

lemma split_from_chars:
  "t \<in> set (split_from cur cs) \<Longrightarrow> set t \<subseteq> set cur \<union> set cs"
proof (induction cs arbitrary: cur)
  case Nil
  then show ?case
    by (simp split: if_splits)
next
  case (Cons c cs)
  show ?case
  proof (cases "isspace c")
    case True
    then have "t = cur \<or> t \<in> set (split_from [] cs)"
      using Cons.prems by (auto split: if_splits)
    then show ?thesis
      using Cons.IH [of "[]"] by auto
  next
    case False
    then have "t \<in> set (split_from (cur @ [c]) cs)"
      using Cons.prems by simp
    then show ?thesis
      using Cons.IH [of "cur @ [c]"] by auto
  qed
qed

lemma split_chars: "t \<in> set (split s) \<Longrightarrow> set t \<subseteq> set s"
  using split_from_chars [of t "[]" s] by (simp add: split_def)

lemma check_text_key_fixed:
  assumes "check_text self text0 t = Some s"
  shows "preprocess_text t = t"
proof -
  have sub: "set t \<subseteq> set (preprocess_text text0)"
    using check_text_key [OF assms] split_chars by blast
  have "remove_diacritics t = t"
    using sub normalize_no_diacritic [of text0] by (intro remove_diacritics_id) blast
  moreover have "normalize_text t = t"
    using sub normalize_no_variant [of text0] by (intro normalize_text_id) blast
  ultimately show ?thesis
    by (simp add: preprocess_text_def)
qed

text \<open>
  C3. A token whose cleaned normalized word is in the vocabulary is no key of the mapping
  that \<open>check_text\<close> returns, whatever the text: neither the token as written in the
  input nor its normalized form, under which \<open>check_text\<close> files its entries.
\<close>

theorem known_word_omitted:
  "strip_non_script (preprocess_text t) \<in> set (word_list self) \<Longrightarrow>
   check_text self text0 t = None \<and> check_text self text0 (preprocess_text t) = None"
proof -
  assume known: "strip_non_script (preprocess_text t) \<in> set (word_list self)"
  have "check_text self text0 t = None"
  proof (cases "check_text self text0 t")
    case (Some s)
    then show ?thesis
      using check_text_key [OF Some] check_text_key_fixed [OF Some] known by simp
  qed simp
  moreover have "check_text self text0 (preprocess_text t) = None"
  proof (cases "check_text self text0 (preprocess_text t)")
    case (Some s)
    then show ?thesis
      using check_text_key [OF Some] known by simp
  qed simp
  ultimately show ?thesis ..
qed

theorem known_word_omitted_witness:
  "strip_non_script (preprocess_text word_kataba) \<in> set (word_list \<lparr>word_list = [word_ktb]\<rparr>) \<and>
   check_text \<lparr>word_list = [word_ktb]\<rparr> word_kataba word_kataba = None \<and>
   check_text \<lparr>word_list = [word_ktb]\<rparr> word_kataba (preprocess_text word_kataba) = None"
proof -
  have h: "strip_non_script (preprocess_text word_kataba)
             \<in> set (word_list \<lparr>word_list = [word_ktb]\<rparr>)"
    by code_simp
  show ?thesis
    using h known_word_omitted [OF h] by (rule conjI)
qed

text \<open>
  C8. Inputs without script characters produce nothing: the empty text and the text
  \<open>!!!\<close> give the empty mapping, and no token without a character of the range
  U+0600..U+06FF is a key of the mapping returned for any text.
\<close>

theorem no_script_no_entry:
  "check_text self [] = Map.empty \<and>
   check_text self [0x21, 0x21, 0x21] = Map.empty \<and>
   (\<not> has_script t \<longrightarrow> check_text self text0 t = None)"
proof -
  have "check_text self [] = Map.empty"
    by (simp add: check_text_def remove_diacritics_def normalize_text_def replace_def split_def)
  moreover have "check_text self [0x21, 0x21, 0x21] = Map.empty"
    by (simp add: check_text_def remove_diacritics_def normalize_text_def replace_def split_def
          isspace_def has_script_def in_script_def)
  moreover have "\<not> has_script t \<longrightarrow> check_text self text0 t = None"
  proof (cases "check_text self text0 t")
    case (Some s)
    then show ?thesis
      using check_text_key [OF Some] by simp
  qed simp
  ultimately show ?thesis by blast
qed

theorem no_script_no_entry_witness:
  "\<not> has_script [0x61, 0x62] \<and>
   check_text example_checker [0x61, 0x62, 0x20, 0x643, 0x628] [0x61, 0x62] = None"
proof -
  have h: "\<not> has_script [0x61, 0x62]"
    by code_simp
  show ?thesis
    using h no_script_no_entry
      [where t = "[0x61, 0x62]" and self = example_checker
         and ?text0.0 = "[0x61, 0x62, 0x20, 0x643, 0x628]"]
    by simp
qed

section \<open>The concrete scenario\<close>

lemma sort_key_least_first:
  assumes "x \<in> set xs" and "\<forall>y \<in> set xs. y \<noteq> x \<longrightarrow> f x < f y"
  shows "\<exists>rest. sort_key f xs = x # rest"
proof -
  have "set (sort_key f xs) = set xs"
    by simp
  then obtain h rest where hr: "sort_key f xs = h # rest"
    using assms(1) by (cases "sort_key f xs") auto
  have "sorted (map f (h # rest))"
    using sorted_sort_key [of f xs] hr by simp
  then have le: "\<forall>y \<in> set rest. f h \<le> f y"
    by simp
  have hin: "h \<in> set xs" and xin: "x \<in> set (h # rest)"
    using hr set_sort [of f xs] assms(1) by auto
  have "h = x"
  proof (rule ccontr)
    assume ne: "h \<noteq> x"
    then have "f x < f h"
      using assms(2) hin by blast
    moreover have "f h \<le> f x"
      using xin ne le by auto
    ultimately show False
      by simp
  qed
  then show ?thesis
    using hr by simp
qed

lemma scenario_scores:
  "weighted_score token_kitax word_kitab = - (1 / 4)"
  "weighted_score token_kitax word_ktb = 3 / 20"
  "weighted_score token_kitax word_maktabh = 11 / 25"
  by code_simp+

lemma scenario_gates:
  "\<not> length_gate token_kitax word_kitab"
  "\<not> length_gate token_kitax word_ktb"
  "\<not> length_gate token_kitax word_maktabh"
  by code_simp+

lemma scenario_vocabulary:
  "normalize_text ` {word_kitab, word_ktb, word_maktaba} = {word_kitab, word_ktb, word_maktabh}"
  by (simp add: normalize_text_def replace_def word_kitab_def word_ktb_def word_maktaba_def
        word_maktabh_def)

lemma scenario_token:
  "split (normalize_text (remove_diacritics token_kitax)) = [token_kitax]"
  "has_script token_kitax" "strip_non_script token_kitax = token_kitax" "token_kitax \<noteq> []"
  "token_kitax \<noteq> word_kitab" "token_kitax \<noteq> word_ktb" "token_kitax \<noteq> word_maktabh"
  by code_simp+

text \<open>
  C9. Concrete scenario: for a checker whose vocabulary is the normalized forms of
  \<open>word_kitab\<close>, \<open>word_ktb\<close> and \<open>word_maktaba\<close>, in whatever order the set
  iterates, \<open>check_text\<close> on the single token \<open>token_kitax\<close> returns a mapping that
  holds the token, with \<open>word_kitab\<close> first in its suggestion list.
\<close>

theorem concrete_scenario:
  assumes "set (word_list self) = normalize_text ` {word_kitab, word_ktb, word_maktaba}"
  shows "\<exists>rest. check_text self token_kitax token_kitax = Some (word_kitab # rest)"
proof -
  have voc: "set (word_list self) = {word_kitab, word_ktb, word_maktabh}"
    using assms by (simp only: scenario_vocabulary)
  then have "token_kitax \<notin> set (word_list self)"
    using scenario_token by simp
  then have entry: "check_text self token_kitax token_kitax
                      = Some (get_suggestions self token_kitax 3)"
    by (simp add: check_text_def Let_def scenario_token)
  let ?c = "map (\<lambda>d. (d, weighted_score token_kitax d)) (word_list self)"
  have "filter (\<lambda>d. \<not> length_gate token_kitax d) (word_list self) = word_list self"
    using voc scenario_gates by (intro filter_True) auto
  then have cands: "suggestions_loop token_kitax (word_list self) [] = ?c"
    by (simp add: suggestions_loop_eq)
  have "(word_kitab, - (1 / 4)) \<in> set ?c"
    using voc scenario_scores(1) by force
  moreover have "\<forall>y \<in> set ?c. y \<noteq> (word_kitab, - (1 / 4)) \<longrightarrow> snd (word_kitab, - (1 / 4) :: rat) < snd y"
    using voc scenario_scores by auto
  ultimately obtain rest where "sort_key snd ?c = (word_kitab, - (1 / 4)) # rest"
    using sort_key_least_first [of "(word_kitab, - (1 / 4))" ?c snd] by blast
  then have "get_suggestions self token_kitax 3 = word_kitab # map fst (take 2 rest)"
    by (simp add: get_suggestions_def Let_def cands slice_to_def)
  then show ?thesis
    using entry by simp
qed

theorem concrete_scenario_witness:
  "set (word_list (init [word_kitab, word_ktb, word_maktaba]))
     = normalize_text ` {word_kitab, word_ktb, word_maktaba} \<and>
   (\<exists>rest. check_text (init [word_kitab, word_ktb, word_maktaba]) token_kitax token_kitax
             = Some (word_kitab # rest))"
proof -
  have h: "set (word_list (init [word_kitab, word_ktb, word_maktaba]))
             = normalize_text ` {word_kitab, word_ktb, word_maktaba}"
    by (simp only: init_def ArabicSpellChecker.select_convs set_remdups set_map list.set)
  show ?thesis
    using h concrete_scenario [OF h] by (rule conjI)
qed

section \<open>Vocabulary and query canonical forms\<close>

text \<open>
  C1. Vocabulary/query symmetry fails on the code for a word written with a diacritic:
  \<open>__init__\<close> stores \<open>word_kataba\<close> through \<open>normalize_text\<close> alone, diacritic
  kept, while \<open>check_text\<close> reduces the same word to \<open>word_ktb\<close>; the checker built
  from the one word \<open>word_kataba\<close> reports that very word as misspelled and suggests
  the stored form.
\<close>

theorem vocabulary_keeps_diacritics:
  "word_list (init [word_kataba]) = [word_kataba] \<and>
   preprocess_text word_kataba = word_ktb \<and>
   check_text (init [word_kataba]) word_kataba word_ktb = Some [word_kataba]"
  by code_simp

end
